theory Spec2Isabelle
  imports Main "HOL-Library.Char_ord" "HOL-Library.List_Lexorder" "HOL-Library.Option_ord"
begin

section \<open>Strings of the handlers\<close>

text \<open>
  A string is the list of the bytes of its UTF-8 encoding. Python's \<open>str.strip()\<close> removes
  the code points for which \<open>str.isspace\<close> holds from both ends; the table lists the
  encodings of these code points: U+0009..U+000D, U+001C..U+0020, U+0085, U+00A0, U+1680,
  U+2000..U+200A, U+2028, U+2029, U+202F, U+205F and U+3000.
\<close>

definition py_whitespace :: "string list" where
  "py_whitespace =
     [[CHR 0x09], [CHR 0x0A], [CHR 0x0B], [CHR 0x0C], [CHR 0x0D],
      [CHR 0x1C], [CHR 0x1D], [CHR 0x1E], [CHR 0x1F], [CHR 0x20],
      [CHR 0xC2, CHR 0x85], [CHR 0xC2, CHR 0xA0],
      [CHR 0xE1, CHR 0x9A, CHR 0x80],
      [CHR 0xE2, CHR 0x80, CHR 0x80], [CHR 0xE2, CHR 0x80, CHR 0x81],
      [CHR 0xE2, CHR 0x80, CHR 0x82], [CHR 0xE2, CHR 0x80, CHR 0x83],
      [CHR 0xE2, CHR 0x80, CHR 0x84], [CHR 0xE2, CHR 0x80, CHR 0x85],
      [CHR 0xE2, CHR 0x80, CHR 0x86], [CHR 0xE2, CHR 0x80, CHR 0x87],
      [CHR 0xE2, CHR 0x80, CHR 0x88], [CHR 0xE2, CHR 0x80, CHR 0x89],
      [CHR 0xE2, CHR 0x80, CHR 0x8A],
      [CHR 0xE2, CHR 0x80, CHR 0xA8], [CHR 0xE2, CHR 0x80, CHR 0xA9],
      [CHR 0xE2, CHR 0x80, CHR 0xAF], [CHR 0xE2, CHR 0x81, CHR 0x9F],
      [CHR 0xE3, CHR 0x80, CHR 0x80]]"

definition ws_prefix :: "string \<Rightarrow> string option" where
  "ws_prefix s = List.find (\<lambda>w. take (length w) s = w) py_whitespace"

definition ws_suffix :: "string \<Rightarrow> string option" where
  "ws_suffix s =
     List.find (\<lambda>w. length w \<le> length s \<and> drop (length s - length w) s = w) py_whitespace"

function lstrip :: "string \<Rightarrow> string" where
  "lstrip s = (case ws_prefix s of None \<Rightarrow> s | Some w \<Rightarrow> lstrip (drop (length w) s))"
  by pat_completeness auto
termination
proof (relation "measure length")
  show "wf (measure length)" by simp
next
  fix s w :: string
  assume "ws_prefix s = Some w"
  then have mem: "w \<in> set py_whitespace" and pre: "take (length w) s = w"
    by (auto simp: ws_prefix_def find_Some_iff)
  from mem have "w \<noteq> []" by (auto simp: py_whitespace_def)
  with pre have "s \<noteq> []" by auto
  with \<open>w \<noteq> []\<close> show "(drop (length w) s, s) \<in> measure length" by simp
qed

function rstrip :: "string \<Rightarrow> string" where
  "rstrip s = (case ws_suffix s of None \<Rightarrow> s | Some w \<Rightarrow> rstrip (take (length s - length w) s))"
  by pat_completeness auto
termination
proof (relation "measure length")
  show "wf (measure length)" by simp
next
  fix s w :: string
  assume "ws_suffix s = Some w"
  then have mem: "w \<in> set py_whitespace" and le: "length w \<le> length s"
    by (auto simp: ws_suffix_def find_Some_iff)
  from mem have "w \<noteq> []" by (auto simp: py_whitespace_def)
  with le show "(take (length s - length w) s, s) \<in> measure length" by (cases s) auto
qed

declare lstrip.simps [simp del] rstrip.simps [simp del]

definition strip :: "string \<Rightarrow> string" where
  "strip s = rstrip (lstrip s)"

text \<open>
  \<open>str(n)\<close> of a Python integer is its decimal numeral.
\<close>

definition digit_char :: "nat \<Rightarrow> char" where
  "digit_char d = char_of (48 + d)"

fun show_nat :: "nat \<Rightarrow> string" where
  "show_nat n = (if n < 10 then [digit_char n] else show_nat (n div 10) @ [digit_char (n mod 10)])"

declare show_nat.simps [simp del]

definition show_int :: "int \<Rightarrow> string" where
  "show_int i = (if i < 0 then CHR ''-'' # show_nat (nat (- i)) else show_nat (nat i))"

text \<open>
  \<open>str.lower()\<close> and SQL \<open>UPPER\<close> are only ever compared with the ASCII literals
  \<open>1\<close>, \<open>true\<close>, \<open>yes\<close> and \<open>NONE\<close>. A letter outside ASCII is mapped to bytes outside
  ASCII (or to letters that occur in none of these literals), so the functions below change
  the ASCII letters only; the comparisons come out the same. SQL \<open>TRIM\<close> removes the
  space character only. Column values are compared byte by byte (a binary collation), and
  \<open>ORDER BY\<close> is the lexicographic order of the bytes.
\<close>

definition lower_char :: "char \<Rightarrow> char" where
  "lower_char c = (if CHR ''A'' \<le> c \<and> c \<le> CHR ''Z'' then char_of (of_char c + (32::nat)) else c)"

definition upper_char :: "char \<Rightarrow> char" where
  "upper_char c = (if CHR ''a'' \<le> c \<and> c \<le> CHR ''z'' then char_of (of_char c - (32::nat)) else c)"

definition lower :: "string \<Rightarrow> string" where
  "lower s = map lower_char s"

definition UPPER :: "string \<Rightarrow> string" where
  "UPPER s = map upper_char s"

definition TRIM :: "string \<Rightarrow> string" where
  "TRIM s = rev (dropWhile (\<lambda>c. c = CHR '' '') (rev (dropWhile (\<lambda>c. c = CHR '' '') s)))"

text \<open>\<open>os.path.basename\<close> (POSIX): what follows the last slash.\<close>

definition basename :: "string \<Rightarrow> string" where
  "basename p = rev (takeWhile (\<lambda>c. c \<noteq> CHR ''/'') (rev p))"

section \<open>JSON values of the request body\<close>

text \<open>
  The fields the save handler reads hold JSON scalars; \<open>dict.get\<close> of a missing key is
  \<open>None\<close>, the same value as JSON \<open>null\<close>. A JSON object is kept as an
  association list. Fields that hold a number with a fraction, an array or an object are
  outside this model.
\<close>

datatype jval = JNull | JBool bool | JInt int | JStr string

type_synonym jobj = "(string \<times> jval) list"

definition get :: "jobj \<Rightarrow> string \<Rightarrow> jval" where
  "get d k = (case map_of d k of None \<Rightarrow> JNull | Some v \<Rightarrow> v)"

fun truthy :: "jval \<Rightarrow> bool" where
  "truthy JNull = False"
| "truthy (JBool b) = b"
| "truthy (JInt n) = (n \<noteq> 0)"
| "truthy (JStr s) = (s \<noteq> [])"

definition py_or :: "jval \<Rightarrow> jval \<Rightarrow> jval" where
  "py_or a b = (if truthy a then a else b)"

fun py_str :: "jval \<Rightarrow> string" where
  "py_str JNull = ''None''"
| "py_str (JBool b) = (if b then ''True'' else ''False'')"
| "py_str (JInt n) = show_int n"
| "py_str (JStr s) = s"

text \<open>\<open>x.strip()\<close> exists on strings only; on any other value it raises AttributeError.\<close>

fun strip_method :: "jval \<Rightarrow> string option" where
  "strip_method (JStr s) = Some (strip s)"
| "strip_method _ = None"

text \<open>
  The literal the driver writes for a statement parameter, read back from a \<open>TEXT\<close>
  column: a string is itself, an integer its numeral, a boolean \<open>1\<close> or \<open>0\<close>;
  \<open>None\<close> is \<open>NULL\<close>, which the \<open>NOT NULL\<close> column rejects.
\<close>

fun sql_text :: "jval \<Rightarrow> string option" where
  "sql_text JNull = None"
| "sql_text (JBool b) = Some (if b then ''1'' else ''0'')"
| "sql_text (JInt n) = Some (show_int n)"
| "sql_text (JStr s) = Some s"

section \<open>The tables\<close>

text \<open>
  \<open>full_table1\<close> is read only; its declaration is not part of the repository, so its three
  columns are nullable here, as the handler treats them. \<open>output\<close> is the table of
  \<open>ensure_output_table\<close>: every column \<open>NOT NULL\<close>, \<open>confirmed\<close> a \<open>TINYINT\<close>,
  the timestamp a point on a clock of natural numbers. The statement of
  \<open>ensure_output_table\<close> creates the table when it is missing and touches no row, so a
  database is the rows of the two tables.
\<close>

record item =
  f_id_oid :: "string option"
  f_stage_audio_path :: "string option"
  f_score_audio_input_text :: "string option"

record output_row =
  o_id_oid :: string
  o_username :: string
  o_fix_text :: string
  o_confirmed :: int
  o_timestamp :: nat

record db =
  full_table1 :: "item list"
  output_tbl :: "output_row list"

text \<open>The primary key \<open>(id_$oid, username)\<close> of \<open>output\<close>.\<close>

definition pk :: "output_row \<Rightarrow> string \<times> string" where
  "pk r = (o_id_oid r, o_username r)"

definition primary_key_ok :: "output_row list \<Rightarrow> bool" where
  "primary_key_ok out = distinct (map pk out)"

text \<open>
  \<open>INSERT ... ON DUPLICATE KEY UPDATE fix_text = VALUES(fix_text), confirmed =
  VALUES(confirmed), timestamp = NOW()\<close>: the row with the key of the new row takes its
  three values; without such a row the new row is inserted.
\<close>

fun upsert :: "output_row \<Rightarrow> output_row list \<Rightarrow> output_row list" where
  "upsert r [] = [r]"
| "upsert r (x # xs) =
     (if pk x = pk r
      then x\<lparr>o_fix_text := o_fix_text r, o_confirmed := o_confirmed r,
              o_timestamp := o_timestamp r\<rparr> # xs
      else x # upsert r xs)"

section \<open>Listing: \<open>api_items\<close>\<close>

text \<open>
  A query argument that \<open>int()\<close> is applied to is absent (the default is taken), or a
  string that \<open>int()\<close> rejects, or a string that it reads as an integer. If either
  conversion raises, both values fall back to the defaults.
\<close>

datatype int_arg = Absent | Unparsable | Parsed int

record list_args =
  a_limit :: int_arg
  a_offset :: int_arg
  a_username :: "string option"
  a_hideConfirmed :: "string option"

fun int_or :: "int_arg \<Rightarrow> int \<Rightarrow> int option" where
  "int_or Absent d = Some d"
| "int_or Unparsable d = None"
| "int_or (Parsed n) d = Some n"

definition paging :: "int_arg \<Rightarrow> int_arg \<Rightarrow> nat \<times> nat" where
  "paging la oa =
     (let (limit, offset) =
            (case int_or la 30 of
               None \<Rightarrow> (30, 0)
             | Some l \<Rightarrow> (case int_or oa 0 of None \<Rightarrow> (30, 0) | Some off \<Rightarrow> (l, off)))
      in (nat (max 1 (min limit 1000)), nat (max 0 offset)))"

definition req_username :: "list_args \<Rightarrow> string" where
  "req_username a = strip (case a_username a of None \<Rightarrow> [] | Some u \<Rightarrow> u)"

definition hide_confirmed :: "list_args \<Rightarrow> bool" where
  "hide_confirmed a =
     (lower (case a_hideConfirmed a of None \<Rightarrow> ''0'' | Some h \<Rightarrow> if h = [] then ''0'' else h)
        \<in> set [''1'', ''true'', ''yes''])"

text \<open>
  The query. \<open>o_user_join\<close> is the left join with the rows of \<open>output\<close> of this item and this
  user, \<open>o_cnt\<close> is \<open>COALESCE(o_cnt.cnt, 0)\<close>, the number of rows of \<open>output\<close> with the
  identifier of the item (a \<open>NULL\<close> identifier joins with nothing). Rows are filtered by the
  \<open>WHERE\<close> clause, ordered by identifier (\<open>NULL\<close> first), and cut to the page.
\<close>

type_synonym joined = "item \<times> output_row option"

definition o_user_join :: "output_row list \<Rightarrow> string \<Rightarrow> item \<Rightarrow> joined list" where
  "o_user_join out username f =
     (case filter (\<lambda>x. Some (o_id_oid x) = f_id_oid f \<and> o_username x = username) out of
        [] \<Rightarrow> [(f, None)]
      | ms \<Rightarrow> map (\<lambda>x. (f, Some x)) ms)"

definition o_cnt :: "output_row list \<Rightarrow> string option \<Rightarrow> nat" where
  "o_cnt out i = (case i of None \<Rightarrow> 0 | Some x \<Rightarrow> length (filter (\<lambda>r. o_id_oid r = x) out))"

definition text_usable :: "string option \<Rightarrow> bool" where
  "text_usable t = (case t of None \<Rightarrow> False | Some s \<Rightarrow> TRIM s \<noteq> [] \<and> UPPER s \<noteq> ''NONE'')"

definition where_clause :: "output_row list \<Rightarrow> bool \<Rightarrow> joined \<Rightarrow> bool" where
  "where_clause out hide r =
     (text_usable (f_score_audio_input_text (fst r))
      \<and> o_cnt out (f_id_oid (fst r)) < 3
      \<and> (hide \<longrightarrow> (case snd r of None \<Rightarrow> True | Some x \<Rightarrow> o_confirmed x \<noteq> 1)))"

definition eligible_rows :: "db \<Rightarrow> string \<Rightarrow> bool \<Rightarrow> joined list" where
  "eligible_rows d username hide =
     sort_key (\<lambda>r. f_id_oid (fst r))
       (filter (where_clause (output_tbl d) hide)
          (concat (map (o_user_join (output_tbl d) username) (full_table1 d))))"

definition select_items :: "db \<Rightarrow> string \<Rightarrow> bool \<Rightarrow> nat \<Rightarrow> nat \<Rightarrow> joined list" where
  "select_items d username hide limit offset = take limit (drop offset (eligible_rows d username hide))"

text \<open>The loop over the fetched rows; \<open>i\<close> is the position in the page, from 0.\<close>

record enriched =
  e_id :: string
  e_id_oid :: string
  e_name :: string
  e_audio :: string
  e_stageAudioPath :: string
  e_inputText :: string
  e_fixText :: string
  e_confirmed :: bool

definition asset_host :: string where
  "asset_host = ''https://content-pic3.oss-cn-hangzhou.aliyuncs.com''"

text \<open>The two characters U+97F3 U+9891 and \<open>#\<close>, the prefix of the name of an item without a path.\<close>

definition name_prefix :: string where
  "name_prefix = [CHR 0xE9, CHR 0x9F, CHR 0xB3, CHR 0xE9, CHR 0xA2, CHR 0x91, CHR ''#'']"

definition enrich :: "nat \<Rightarrow> joined \<Rightarrow> enriched" where
  "enrich i r =
     (let oid = (case f_id_oid (fst r) of Some x \<Rightarrow> x | None \<Rightarrow> show_nat (i + 1));
          stage_path = (case f_stage_audio_path (fst r) of Some p \<Rightarrow> p | None \<Rightarrow> []);
          audio_url = (if stage_path \<noteq> [] then asset_host @ stage_path else []);
          name = (if stage_path \<noteq> [] then basename stage_path else name_prefix @ show_nat (i + 1));
          input_text = (case f_score_audio_input_text (fst r) of Some t \<Rightarrow> t | None \<Rightarrow> []);
          fix_text = (case snd r of
                        Some x \<Rightarrow> if o_fix_text x \<noteq> [] then o_fix_text x else input_text
                      | None \<Rightarrow> input_text);
          confirmed = (case snd r of Some x \<Rightarrow> o_confirmed x \<noteq> 0 | None \<Rightarrow> False)
      in \<lparr>e_id = oid, e_id_oid = oid, e_name = name, e_audio = audio_url,
          e_stageAudioPath = stage_path, e_inputText = input_text, e_fixText = fix_text,
          e_confirmed = confirmed\<rparr>)"

text \<open>
  \<open>fetched\<close> is what \<open>cur.fetchall()\<close> gives the handler: the page of the query, or nothing
  when connecting or executing raised (\<open>query_fails\<close>), the case of the \<open>except\<close> branch.
  The handler returns the response; the database is returned with it, as it is left.
\<close>

definition fetched :: "bool \<Rightarrow> list_args \<Rightarrow> db \<Rightarrow> joined list" where
  "fetched query_fails a d =
     (if query_fails then []
      else select_items d (req_username a) (hide_confirmed a)
             (fst (paging (a_limit a) (a_offset a))) (snd (paging (a_limit a) (a_offset a))))"

definition api_items :: "bool \<Rightarrow> list_args \<Rightarrow> db \<Rightarrow> enriched list \<times> db" where
  "api_items query_fails a d =
     (map (\<lambda>(i, r). enrich i r) (enumerate 0 (fetched query_fails a d)), d)"

section \<open>Saving: \<open>api_annotations\<close>\<close>

text \<open>
  The body of the request: \<open>username\<close> of the envelope and \<open>items\<close>, which is missing or
  falsy (the handler takes the empty list), a value that is not a list, or a list of entries.
  An entry of the list is a JSON object or a value of another kind (\<open>null\<close>, a boolean,
  a number, a string, an array). The loop calls \<open>it.get\<close> on every entry, and only a
  dictionary has this method: on every other value the call raises AttributeError.
\<close>

datatype batch_entry = Obj jobj | NotObj

datatype items_field = Falsy | NotAList | ItemList "batch_entry list"

record payload =
  p_username :: jval
  p_items :: items_field

text \<open>
  What the store does during one request: whether \<open>ensure_output_table\<close> raises, whether
  \<open>get_conn\<close> raises, whether the \<open>k\<close>-th \<open>execute\<close> of the loop raises (counted from 0),
  and the value of \<open>NOW()\<close> in the \<open>k\<close>-th \<open>execute\<close>. A statement the store rejects (a
  value too long for its column, a lost connection) is an \<open>execute\<close> that raises. The
  connection is opened with \<open>autocommit\<close>, so every executed statement is committed at once.
\<close>

record store_env =
  ensure_fails :: bool
  conn_fails :: bool
  exec_fails :: "nat \<Rightarrow> bool"
  now :: "nat \<Rightarrow> nat"

datatype failure = AttributeError | StoreError

datatype response = Saved nat | InvalidPayload | ServerError failure

definition entry_oid :: "jobj \<Rightarrow> string" where
  "entry_oid it = strip (py_str (py_or (py_or (get it ''id'') (get it ''id_$oid'')) (JStr [])))"

definition entry_fix_text :: "jobj \<Rightarrow> jval" where
  "entry_fix_text it = py_or (py_or (get it ''fixText'') (get it ''fix_text'')) (JStr [])"

definition entry_username :: "string \<Rightarrow> jobj \<Rightarrow> string option" where
  "entry_username top_username it =
     strip_method (py_or (py_or (get it ''username'') (JStr top_username)) (JStr []))"

definition entry_confirmed :: "jobj \<Rightarrow> int" where
  "entry_confirmed it = (if truthy (get it ''confirmed'') then 1 else 0)"

text \<open>
  The loop over the entries: \<open>saved\<close> counts the statements executed so far, \<open>out\<close> is
  the table. An exception leaves the loop with the table as it is at that moment. The
  first expression of the body, \<open>it.get("id")\<close>, raises on an entry that is no object,
  before the test of the identifier.
\<close>

fun save_loop ::
  "store_env \<Rightarrow> string \<Rightarrow> batch_entry list \<Rightarrow> nat \<Rightarrow> output_row list
     \<Rightarrow> (failure + nat) \<times> output_row list"
where
  "save_loop env top_username [] saved out = (Inr saved, out)"
| "save_loop env top_username (NotObj # its) saved out = (Inl AttributeError, out)"
| "save_loop env top_username (Obj it # its) saved out =
     (if entry_oid it = [] then save_loop env top_username its saved out
      else case entry_username top_username it of
             None \<Rightarrow> (Inl AttributeError, out)
           | Some username \<Rightarrow>
               (case sql_text (entry_fix_text it) of
                  None \<Rightarrow> (Inl StoreError, out)
                | Some fix_text \<Rightarrow>
                    if exec_fails env saved then (Inl StoreError, out)
                    else save_loop env top_username its (Suc saved)
                           (upsert \<lparr>o_id_oid = entry_oid it, o_username = username,
                                     o_fix_text = fix_text, o_confirmed = entry_confirmed it,
                                     o_timestamp = now env saved\<rparr> out)))"

definition batch :: "items_field \<Rightarrow> batch_entry list option" where
  "batch i = (case i of Falsy \<Rightarrow> Some [] | NotAList \<Rightarrow> None | ItemList its \<Rightarrow> Some its)"

definition api_annotations :: "store_env \<Rightarrow> payload \<Rightarrow> db \<Rightarrow> response \<times> db" where
  "api_annotations env data d =
     (case batch (p_items data) of
        None \<Rightarrow> (InvalidPayload, d)
      | Some its \<Rightarrow>
          if ensure_fails env then (ServerError StoreError, d)
          else if conn_fails env then (ServerError StoreError, d)
          else (case strip_method (py_or (p_username data) (JStr [])) of
                  None \<Rightarrow> (ServerError AttributeError, d)
                | Some top_username \<Rightarrow>
                    (case save_loop env top_username its 0 (output_tbl d) of
                       (Inl e, out) \<Rightarrow> (ServerError e, d\<lparr>output_tbl := out\<rparr>)
                     | (Inr saved, out) \<Rightarrow> (Saved saved, d\<lparr>output_tbl := out\<rparr>))))"

section \<open>Notions of the properties and example data\<close>


text \<open>The users who have a row in \<open>output\<close> for the item \<open>i\<close>.\<close>

definition annotators :: "output_row list \<Rightarrow> string \<Rightarrow> string set" where
  "annotators out i = o_username ` {r \<in> set out. o_id_oid r = i}"

text \<open>A store without failures, whose clock shows \<open>t\<close> during the request.\<close>

definition calm :: "nat \<Rightarrow> store_env" where
  "calm t = \<lparr>ensure_fails = False, conn_fails = False, exec_fails = (\<lambda>k. False), now = (\<lambda>k. t)\<rparr>"

definition clip :: "string \<Rightarrow> string \<Rightarrow> item" where
  "clip i t = \<lparr>f_id_oid = Some i, f_stage_audio_path = Some (''/clips/'' @ i @ ''.wav''),
               f_score_audio_input_text = Some t\<rparr>"

definition row :: "string \<Rightarrow> string \<Rightarrow> string \<Rightarrow> int \<Rightarrow> nat \<Rightarrow> output_row" where
  "row i u t c ts = \<lparr>o_id_oid = i, o_username = u, o_fix_text = t, o_confirmed = c, o_timestamp = ts\<rparr>"

definition page_args :: "string option \<Rightarrow> list_args" where
  "page_args u = \<lparr>a_limit = Absent, a_offset = Absent, a_username = u, a_hideConfirmed = None\<rparr>"

definition entry :: "string \<Rightarrow> string \<Rightarrow> bool \<Rightarrow> jobj" where
  "entry i t c = [(''id'', JStr i), (''fixText'', JStr t), (''confirmed'', JBool c)]"

definition alice_db :: db where
  "alice_db = \<lparr>full_table1 = [clip ''42'' ''hello''],
               output_tbl = [row ''42'' ''alice'' ''Hello.'' 1 5]\<rparr>"

definition fresh_db :: db where
  "fresh_db = \<lparr>full_table1 = [clip ''42'' ''hello'', clip ''43'' ''world''], output_tbl = []\<rparr>"



text \<open>A store whose \<open>n\<close>-th statement of the request fails.\<close>

definition flaky :: "nat \<Rightarrow> nat \<Rightarrow> store_env" where
  "flaky n t = \<lparr>ensure_fails = False, conn_fails = False, exec_fails = (\<lambda>k. k = n), now = (\<lambda>k. t)\<rparr>"

definition alice_batch :: "batch_entry list \<Rightarrow> payload" where
  "alice_batch its = \<lparr>p_username = JStr ''alice'', p_items = ItemList its\<rparr>"

text \<open>Three users have annotated item 42; alice has also saved item 43, with an empty text.\<close>

definition quota_db :: db where
  "quota_db = \<lparr>full_table1 = [clip ''43'' ''world'', clip ''42'' ''hello''],
               output_tbl = [row ''42'' ''alice'' ''Hello.'' 1 5, row ''42'' ''bob'' ''hello!'' 0 6,
                             row ''42'' ''carol'' ''Hallo'' 1 7, row ''43'' ''alice'' [] 1 8]\<rparr>"

text \<open>Identifier, recognized text, display text and confirmed flag of a listed item.\<close>

definition shown :: "enriched \<Rightarrow> string \<times> string \<times> string \<times> bool" where
  "shown e = (e_id e, e_inputText e, e_fixText e, e_confirmed e)"



text \<open>Two named users have annotated item 42.\<close>

definition two_db :: db where
  "two_db = \<lparr>full_table1 = [clip ''42'' ''hello'', clip ''43'' ''world''],
             output_tbl = [row ''42'' ''alice'' ''Hello.'' 1 5, row ''42'' ''bob'' ''hello!'' 0 6]\<rparr>"

section \<open>The primary key of \<open>output\<close>\<close>

lemma map_pk_upsert:
  "map pk (upsert r out) = (if pk r \<in> set (map pk out) then map pk out else map pk out @ [pk r])"
  by (induction out) (auto simp: pk_def)

lemma primary_key_ok_upsert: "primary_key_ok out \<Longrightarrow> primary_key_ok (upsert r out)"
  by (simp add: primary_key_ok_def map_pk_upsert)

lemma upsert_other_rows:
  "filter (\<lambda>x. pk x \<noteq> pk r) (upsert r out) = filter (\<lambda>x. pk x \<noteq> pk r) out"
  by (induction out) (auto simp: pk_def)

lemma distinct_count_one:
  "distinct (map f xs) \<Longrightarrow> k \<in> set (map f xs) \<Longrightarrow> length (filter (\<lambda>x. f x = k) xs) = 1"
proof (induction xs)
  case Nil
  then show ?case by simp
next
  case (Cons a xs)
  show ?case
  proof (cases "f a = k")
    case True
    with Cons.prems have "k \<notin> f ` set xs" by simp
    then have "\<forall>x\<in>set xs. f x \<noteq> k" by blast
    then have "filter (\<lambda>x. f x = k) xs = []" by (simp add: filter_empty_conv)
    with True show ?thesis by simp
  next
    case False
    with Cons show ?thesis by auto
  qed
qed

lemma upsert_key_once:
  assumes "primary_key_ok out"
  shows "length (filter (\<lambda>x. pk x = pk r) (upsert r out)) = 1"
proof -
  have "distinct (map pk (upsert r out))"
    using primary_key_ok_upsert [OF assms] by (simp add: primary_key_ok_def)
  moreover have "pk r \<in> set (map pk (upsert r out))"
    by (simp add: map_pk_upsert)
  ultimately show ?thesis by (rule distinct_count_one)
qed

lemma save_loop_primary_key_ok:
  "primary_key_ok out \<Longrightarrow> primary_key_ok (snd (save_loop env tu its k out))"
proof (induction its arbitrary: k out)
  case Nil
  then show ?case by simp
next
  case (Cons e its)
  then show ?case
    by (cases e) (auto simp: primary_key_ok_upsert split: option.splits)
qed

lemma api_annotations_full_table1:
  "full_table1 (snd (api_annotations env data d)) = full_table1 d"
  by (auto simp: api_annotations_def split: option.splits prod.splits sum.splits)

lemma api_annotations_primary_key_ok:
  assumes "primary_key_ok (output_tbl d)"
  shows "primary_key_ok (output_tbl (snd (api_annotations env data d)))"
proof -
  have loop: "primary_key_ok out" if "save_loop env tu its 0 (output_tbl d) = (res, out)"
    for tu its res out
    using save_loop_primary_key_ok [OF assms, of env tu its 0] that by simp
  show ?thesis
    using assms by (auto simp: api_annotations_def loop split: option.splits prod.splits sum.splits)
qed

lemma api_items_db: "snd (api_items qf a d) = d"
  by (simp add: api_items_def)

lemma sql_text_entry_fix_text: "\<exists>t. sql_text (entry_fix_text it) = Some t"
proof -
  have "entry_fix_text it \<noteq> JNull"
    by (auto simp: entry_fix_text_def py_or_def)
  then show ?thesis by (cases "entry_fix_text it") auto
qed

lemma save_loop_append:
  "save_loop env tu (xs @ ys) k out =
     (case save_loop env tu xs k out of
        (Inl e, out') \<Rightarrow> (Inl e, out')
      | (Inr k', out') \<Rightarrow> save_loop env tu ys k' out')"
proof (induction xs arbitrary: k out)
  case Nil
  show ?case by simp
next
  case (Cons e xs)
  then show ?case by (cases e) (auto split: option.splits)
qed

lemma api_annotations_loop:
  assumes "\<not> ensure_fails env" "\<not> conn_fails env"
      and "strip_method (py_or (p_username data) (JStr [])) = Some tu"
  shows "api_annotations env (data\<lparr>p_items := ItemList its\<rparr>) d =
           (case save_loop env tu its 0 (output_tbl d) of
              (Inl e, out) \<Rightarrow> (ServerError e, d\<lparr>output_tbl := out\<rparr>)
            | (Inr saved, out) \<Rightarrow> (Saved saved, d\<lparr>output_tbl := out\<rparr>))"
  using assms by (simp add: api_annotations_def batch_def)

lemma api_annotations_Saved:
  assumes "api_annotations env (data\<lparr>p_items := ItemList its\<rparr>) d = (Saved k, d1)"
  shows "\<not> ensure_fails env \<and> \<not> conn_fails env \<and>
         (\<exists>tu. strip_method (py_or (p_username data) (JStr [])) = Some tu \<and>
               save_loop env tu its 0 (output_tbl d) = (Inr k, output_tbl d1) \<and>
               d1 = d\<lparr>output_tbl := output_tbl d1\<rparr>)"
  using assms
  by (auto simp: api_annotations_def batch_def split: option.splits if_splits prod.splits sum.splits)

lemma pk_update [simp]:
  "pk (x\<lparr>o_fix_text := t\<rparr>) = pk x"
  "pk (x\<lparr>o_confirmed := c\<rparr>) = pk x"
  "pk (x\<lparr>o_timestamp := ts\<rparr>) = pk x"
  by (simp_all add: pk_def)

lemma pk_eq_update:
  "pk x = pk r \<Longrightarrow>
     x\<lparr>o_fix_text := o_fix_text r, o_confirmed := o_confirmed r, o_timestamp := o_timestamp r\<rparr> = r"
  by (cases x, cases r) (simp add: pk_def)

lemma upsert_stores_row:
  assumes "primary_key_ok out"
  shows "filter (\<lambda>x. pk x = pk r) (upsert r out) = [r]"
  using assms unfolding primary_key_ok_def
proof (induction out)
  case Nil
  show ?case by simp
next
  case (Cons x xs)
  show ?case
  proof (cases "pk x = pk r")
    case True
    with Cons.prems have "pk r \<notin> pk ` set xs" by simp
    then have "\<forall>y\<in>set xs. pk y \<noteq> pk r" by (metis imageI)
    then have "filter (\<lambda>y. pk y = pk r) xs = []" by (simp add: filter_empty_conv)
    with True show ?thesis by (simp add: pk_eq_update)
  next
    case False
    with Cons show ?thesis by simp
  qed
qed

lemma upsert_conflict_length:
  "pk r \<in> pk ` set out \<Longrightarrow> length (upsert r out) = length out"
  by (induction out) auto

lemma upsert_fresh_append:
  "pk r \<notin> pk ` set out \<Longrightarrow> upsert r out = out @ [r]"
  by (induction out) auto

lemma api_annotations_step:
  assumes "api_annotations env (data\<lparr>p_items := ItemList pre\<rparr>) d = (Saved k, d1)"
      and "strip_method (py_or (p_username data) (JStr [])) = Some tu"
      and "entry_oid it \<noteq> []"
      and "entry_username tu it = Some u"
      and "sql_text (entry_fix_text it) = Some t"
      and "\<not> exec_fails env k"
  shows "api_annotations env (data\<lparr>p_items := ItemList (pre @ [Obj it])\<rparr>) d =
           (Saved (Suc k),
            d1\<lparr>output_tbl := upsert (row (entry_oid it) u t (entry_confirmed it) (now env k))
                                (output_tbl d1)\<rparr>)"
proof -
  let ?r = "row (entry_oid it) u t (entry_confirmed it) (now env k)"
  from api_annotations_Saved [OF assms(1)] assms(2)
  have env: "\<not> ensure_fails env" "\<not> conn_fails env"
    and lp: "save_loop env tu pre 0 (output_tbl d) = (Inr k, output_tbl d1)"
    and d1: "d1 = d\<lparr>output_tbl := output_tbl d1\<rparr>"
    by auto
  have "save_loop env tu (pre @ [Obj it]) 0 (output_tbl d)
          = (Inr (Suc k), upsert ?r (output_tbl d1))"
    using assms(3-6) by (simp add: save_loop_append lp row_def)
  then have "api_annotations env (data\<lparr>p_items := ItemList (pre @ [Obj it])\<rparr>) d =
               (Saved (Suc k), d\<lparr>output_tbl := upsert ?r (output_tbl d1)\<rparr>)"
    using env assms(2) by (simp add: api_annotations_loop)
  moreover have "d\<lparr>output_tbl := upsert ?r (output_tbl d1)\<rparr>
                   = d1\<lparr>output_tbl := upsert ?r (output_tbl d1)\<rparr>"
    by (subst (2) d1) simp
  ultimately show ?thesis by simp
qed

text \<open>
  C3. If \<open>output\<close> holds at most one row for every pair of item and user, it still does
  after a save request and after a listing request, whatever the request and whatever fails.
  The write of one row \<open>r\<close> keeps it so and replaces on a conflict: afterwards there is
  exactly one row with the key of \<open>r\<close>, it is \<open>r\<close> itself, with its text, its flag and its
  timestamp, and the rows with other keys are the ones there were; when the key was in the
  table the table is as long as before, when it was not, \<open>r\<close> is added at the end. The save
  request performs this write: if the entries \<open>pre\<close> are saved with \<open>k\<close> statements, the
  database then being \<open>d1\<close>, the request with one more valid entry, whose statement does not
  fail, answers \<open>k + 1\<close> and leaves \<open>d1\<close> with the row of the entry written into
  \<open>output\<close>; this row holds the trimmed identifier, the resolved user, the text and the flag
  of the entry and the time of the statement, and it is the only row with its key.
\<close>

theorem annotation_rows_unique:
  assumes "primary_key_ok (output_tbl d)"
  shows "primary_key_ok (output_tbl (snd (api_annotations env data d)))
       \<and> primary_key_ok (output_tbl (snd (api_items qf a d)))
       \<and> primary_key_ok (upsert r (output_tbl d))
       \<and> length (filter (\<lambda>x. pk x = pk r) (upsert r (output_tbl d))) = 1
       \<and> filter (\<lambda>x. pk x \<noteq> pk r) (upsert r (output_tbl d))
           = filter (\<lambda>x. pk x \<noteq> pk r) (output_tbl d)
       \<and> filter (\<lambda>x. pk x = pk r) (upsert r (output_tbl d)) = [r]
       \<and> (pk r \<in> pk ` set (output_tbl d) \<longrightarrow>
            length (upsert r (output_tbl d)) = length (output_tbl d))
       \<and> (pk r \<notin> pk ` set (output_tbl d) \<longrightarrow> upsert r (output_tbl d) = output_tbl d @ [r])
       \<and> (api_annotations env (data\<lparr>p_items := ItemList pre\<rparr>) d = (Saved k, d1)
            \<and> strip_method (py_or (p_username data) (JStr [])) = Some tu
            \<and> entry_oid it \<noteq> [] \<and> entry_username tu it = Some u
            \<and> sql_text (entry_fix_text it) = Some t \<and> \<not> exec_fails env k \<longrightarrow>
          api_annotations env (data\<lparr>p_items := ItemList (pre @ [Obj it])\<rparr>) d =
            (Saved (Suc k),
             d1\<lparr>output_tbl := upsert (row (entry_oid it) u t (entry_confirmed it) (now env k))
                                 (output_tbl d1)\<rparr>)
          \<and> filter (\<lambda>x. pk x = (entry_oid it, u))
               (upsert (row (entry_oid it) u t (entry_confirmed it) (now env k)) (output_tbl d1))
              = [row (entry_oid it) u t (entry_confirmed it) (now env k)]
          \<and> filter (\<lambda>x. pk x \<noteq> (entry_oid it, u))
               (upsert (row (entry_oid it) u t (entry_confirmed it) (now env k)) (output_tbl d1))
              = filter (\<lambda>x. pk x \<noteq> (entry_oid it, u)) (output_tbl d1))"
proof -
  have rows: "primary_key_ok (output_tbl (snd (api_annotations env data d)))
       \<and> primary_key_ok (output_tbl (snd (api_items qf a d)))
       \<and> primary_key_ok (upsert r (output_tbl d))
       \<and> length (filter (\<lambda>x. pk x = pk r) (upsert r (output_tbl d))) = 1
       \<and> filter (\<lambda>x. pk x \<noteq> pk r) (upsert r (output_tbl d))
           = filter (\<lambda>x. pk x \<noteq> pk r) (output_tbl d)"
    using assms
    by (simp add: api_annotations_primary_key_ok api_items_db primary_key_ok_upsert
        upsert_key_once upsert_other_rows)
  have kept: "filter (\<lambda>x. pk x = pk r) (upsert r (output_tbl d)) = [r]"
    using assms by (rule upsert_stores_row)
  have len: "pk r \<in> pk ` set (output_tbl d) \<longrightarrow>
            length (upsert r (output_tbl d)) = length (output_tbl d)"
    by (simp add: upsert_conflict_length)
  have app: "pk r \<notin> pk ` set (output_tbl d) \<longrightarrow> upsert r (output_tbl d) = output_tbl d @ [r]"
    by (simp add: upsert_fresh_append)
  have step: "api_annotations env (data\<lparr>p_items := ItemList (pre @ [Obj it])\<rparr>) d =
            (Saved (Suc k),
             d1\<lparr>output_tbl := upsert (row (entry_oid it) u t (entry_confirmed it) (now env k))
                                 (output_tbl d1)\<rparr>)
          \<and> filter (\<lambda>x. pk x = (entry_oid it, u))
               (upsert (row (entry_oid it) u t (entry_confirmed it) (now env k)) (output_tbl d1))
              = [row (entry_oid it) u t (entry_confirmed it) (now env k)]
          \<and> filter (\<lambda>x. pk x \<noteq> (entry_oid it, u))
               (upsert (row (entry_oid it) u t (entry_confirmed it) (now env k)) (output_tbl d1))
              = filter (\<lambda>x. pk x \<noteq> (entry_oid it, u)) (output_tbl d1)"
    if h: "api_annotations env (data\<lparr>p_items := ItemList pre\<rparr>) d = (Saved k, d1)
            \<and> strip_method (py_or (p_username data) (JStr [])) = Some tu
            \<and> entry_oid it \<noteq> [] \<and> entry_username tu it = Some u
            \<and> sql_text (entry_fix_text it) = Some t \<and> \<not> exec_fails env k"
  proof -
    let ?r = "row (entry_oid it) u t (entry_confirmed it) (now env k)"
    have key: "pk ?r = (entry_oid it, u)" by (simp add: pk_def row_def)
    from h have "snd (api_annotations env (data\<lparr>p_items := ItemList pre\<rparr>) d) = d1" by simp
    with api_annotations_primary_key_ok [OF assms, of env "data\<lparr>p_items := ItemList pre\<rparr>"]
    have ok1: "primary_key_ok (output_tbl d1)" by simp
    from h have "api_annotations env (data\<lparr>p_items := ItemList pre\<rparr>) d = (Saved k, d1)"
      and "strip_method (py_or (p_username data) (JStr [])) = Some tu"
      and "entry_oid it \<noteq> []" and "entry_username tu it = Some u"
      and "sql_text (entry_fix_text it) = Some t" and "\<not> exec_fails env k"
      by simp_all
    then have "api_annotations env (data\<lparr>p_items := ItemList (pre @ [Obj it])\<rparr>) d =
            (Saved (Suc k), d1\<lparr>output_tbl := upsert ?r (output_tbl d1)\<rparr>)"
      by (rule api_annotations_step)
    moreover have "filter (\<lambda>x. pk x = (entry_oid it, u)) (upsert ?r (output_tbl d1)) = [?r]"
      using upsert_stores_row [OF ok1, of ?r] by (simp only: key)
    moreover have "filter (\<lambda>x. pk x \<noteq> (entry_oid it, u)) (upsert ?r (output_tbl d1))
                     = filter (\<lambda>x. pk x \<noteq> (entry_oid it, u)) (output_tbl d1)"
      using upsert_other_rows [of ?r "output_tbl d1"] by (simp only: key)
    ultimately show ?thesis by simp
  qed
  from rows kept len app step show ?thesis by blast
qed

theorem annotation_rows_unique_witness:
  "primary_key_ok (output_tbl alice_db)
   \<and> primary_key_ok (output_tbl (snd (api_annotations (calm 9)
         \<lparr>p_username = JStr ''alice'', p_items = ItemList [Obj (entry ''42'' ''Hello!'' False)]\<rparr> alice_db)))
   \<and> primary_key_ok (output_tbl (snd (api_items False (page_args (Some ''alice'')) alice_db)))
   \<and> upsert (row ''42'' ''alice'' ''Hello!'' 0 9) (output_tbl alice_db)
       = [row ''42'' ''alice'' ''Hello!'' 0 9]
   \<and> output_tbl alice_db = [row ''42'' ''alice'' ''Hello.'' 1 5]
   \<and> pk (row ''42'' ''alice'' ''Hello!'' 0 9) \<in> pk ` set (output_tbl alice_db)
   \<and> length (upsert (row ''42'' ''alice'' ''Hello!'' 0 9) (output_tbl alice_db)) = 1
   \<and> pk (row ''42'' ''bob'' ''hello'' 0 9) \<notin> pk ` set (output_tbl alice_db)
   \<and> upsert (row ''42'' ''bob'' ''hello'' 0 9) (output_tbl alice_db)
       = [row ''42'' ''alice'' ''Hello.'' 1 5, row ''42'' ''bob'' ''hello'' 0 9]
   \<and> api_annotations (calm 9) (alice_batch []) alice_db = (Saved 0, alice_db)
   \<and> api_annotations (calm 9) (alice_batch [Obj (entry ''42'' ''Hello!'' False)]) alice_db
       = (Saved 1, alice_db\<lparr>output_tbl := [row ''42'' ''alice'' ''Hello!'' 0 9]\<rparr>)"
proof -
  let ?data = "alice_batch []"
  let ?it = "entry ''42'' ''Hello!'' False"
  let ?r = "row ''42'' ''alice'' ''Hello!'' 0 9"
  let ?b = "row ''42'' ''bob'' ''hello'' 0 9"
  have upd: "?data\<lparr>p_items := ItemList its\<rparr> = alice_batch its" for its
    by (simp add: alice_batch_def)
  have ab: "alice_batch its = \<lparr>p_username = JStr ''alice'', p_items = ItemList its\<rparr>" for its
    by (simp add: alice_batch_def)
  have h: "primary_key_ok (output_tbl alice_db)" by code_simp
  have tbl: "output_tbl alice_db = [row ''42'' ''alice'' ''Hello.'' 1 5]"
    by (simp add: alice_db_def)
  have inr: "pk ?r \<in> pk ` set (output_tbl alice_db)"
    by (simp add: alice_db_def pk_def row_def)
  have nib: "pk ?b \<notin> pk ` set (output_tbl alice_db)"
    by (simp add: alice_db_def pk_def row_def)
  have pre: "api_annotations (calm 9) (?data\<lparr>p_items := ItemList []\<rparr>) alice_db = (Saved 0, alice_db)"
    unfolding upd by code_simp
  have tu: "strip_method (py_or (p_username ?data) (JStr [])) = Some ''alice''" by code_simp
  have oid: "entry_oid ?it = ''42''" by code_simp
  have un: "entry_username ''alice'' ?it = Some ''alice''" by code_simp
  have tx: "sql_text (entry_fix_text ?it) = Some ''Hello!''" by code_simp
  have cf: "entry_confirmed ?it = 0" by code_simp
  have ok: "\<not> exec_fails (calm 9) 0" by (simp add: calm_def)
  have nw: "now (calm 9) 0 = 9" by (simp add: calm_def)
  note t = annotation_rows_unique [OF h, where env = "calm 9" and data = ?data and qf = False
      and a = "page_args (Some ''alice'')" and pre = "[]" and k = 0 and ?d1.0 = alice_db
      and it = ?it and tu = "''alice''" and u = "''alice''" and t = "''Hello!''"]
  from t [where r = ?r] inr tbl
  have one: "upsert ?r (output_tbl alice_db) = [?r]"
    and len: "length (upsert ?r (output_tbl alice_db)) = 1"
    by simp_all
  from t [where r = ?b] nib tbl
  have two: "upsert ?b (output_tbl alice_db) = [row ''42'' ''alice'' ''Hello.'' 1 5, ?b]"
    by simp
  from t [where r = ?r] pre tu oid un tx ok
  have "api_annotations (calm 9) (?data\<lparr>p_items := ItemList ([] @ [Obj ?it])\<rparr>) alice_db =
          (Saved (Suc 0),
           alice_db\<lparr>output_tbl := upsert (row (entry_oid ?it) ''alice'' ''Hello!''
                                            (entry_confirmed ?it) (now (calm 9) 0))
                                   (output_tbl alice_db)\<rparr>)"
    by simp
  then have run: "api_annotations (calm 9) (alice_batch [Obj ?it]) alice_db
                    = (Saved 1, alice_db\<lparr>output_tbl := [?r]\<rparr>)"
    unfolding upd oid cf nw by (simp add: one)
  from t [where r = ?r] run
  have ok1: "primary_key_ok (output_tbl (snd (api_annotations (calm 9)
         \<lparr>p_username = JStr ''alice'', p_items = ItemList [Obj ?it]\<rparr> alice_db)))"
    unfolding ab by (simp add: primary_key_ok_def pk_def row_def)
  from t [where r = ?r]
  have ok2: "primary_key_ok (output_tbl (snd (api_items False (page_args (Some ''alice'')) alice_db)))"
    by simp
  from pre have pre': "api_annotations (calm 9) (alice_batch []) alice_db = (Saved 0, alice_db)"
    unfolding upd .
  from h ok1 ok2 one tbl inr len nib two pre' run show ?thesis by simp
qed

section \<open>The save loop\<close>





lemma strip_Nil: "strip [] = []"
  by code_simp








section \<open>Failures of the store during a save\<close>

text \<open>
  C8. Let the entries \<open>pre\<close> be saved without failure, \<open>k\<close> statements executed, the
  database then being \<open>d1\<close>. If the statement of the next valid entry fails, the request with
  the batch \<open>pre\<close>, this entry and any further entries \<open>post\<close> answers with a server error
  and leaves the database as \<open>d1\<close>: the rows written before the failure stay, nothing of
  \<open>post\<close> is written. A failure of \<open>ensure_output_table\<close> or of the connection answers
  with a server error before anything is written.
\<close>

theorem store_failure_keeps_prefix:
  assumes "api_annotations env (data\<lparr>p_items := ItemList pre\<rparr>) d = (Saved k, d1)"
      and "strip_method (py_or (p_username data) (JStr [])) = Some tu"
      and "entry_oid it \<noteq> []"
      and "entry_username tu it \<noteq> None"
      and "exec_fails env k"
  shows "api_annotations env (data\<lparr>p_items := ItemList (pre @ Obj it # post)\<rparr>) d
           = (ServerError StoreError, d1)
       \<and> (\<forall>its. ensure_fails env \<or> conn_fails env \<longrightarrow>
            api_annotations env (data\<lparr>p_items := ItemList its\<rparr>) d = (ServerError StoreError, d))"
proof
  from api_annotations_Saved [OF assms(1)] assms(2)
  have ok: "\<not> ensure_fails env" "\<not> conn_fails env"
    and pre: "save_loop env tu pre 0 (output_tbl d) = (Inr k, output_tbl d1)"
    and d1: "d1 = d\<lparr>output_tbl := output_tbl d1\<rparr>"
    by auto
  obtain u where u: "entry_username tu it = Some u" using assms(4) by auto
  obtain t where t: "sql_text (entry_fix_text it) = Some t"
    using sql_text_entry_fix_text by blast
  have step: "save_loop env tu (Obj it # post) k (output_tbl d1) = (Inl StoreError, output_tbl d1)"
    using assms(3,5) u t by simp
  have "save_loop env tu (pre @ Obj it # post) 0 (output_tbl d) = (Inl StoreError, output_tbl d1)"
    by (simp add: save_loop_append pre step del: save_loop.simps)
  then have "api_annotations env (data\<lparr>p_items := ItemList (pre @ Obj it # post)\<rparr>) d
           = (ServerError StoreError, d\<lparr>output_tbl := output_tbl d1\<rparr>)"
    using ok assms(2) by (simp add: api_annotations_loop)
  with d1 show "api_annotations env (data\<lparr>p_items := ItemList (pre @ Obj it # post)\<rparr>) d
           = (ServerError StoreError, d1)" by simp
next
  show "\<forall>its. ensure_fails env \<or> conn_fails env \<longrightarrow>
            api_annotations env (data\<lparr>p_items := ItemList its\<rparr>) d = (ServerError StoreError, d)"
    by (auto simp: api_annotations_def batch_def)
qed

theorem store_failure_keeps_prefix_witness:
  "api_annotations (flaky 1 9) (alice_batch [Obj (entry ''42'' ''Hello.'' True)]) fresh_db
     = (Saved 1, fresh_db\<lparr>output_tbl := [row ''42'' ''alice'' ''Hello.'' 1 9]\<rparr>)
   \<and> exec_fails (flaky 1 9) 1
   \<and> api_annotations (flaky 1 9)
        (alice_batch [Obj (entry ''42'' ''Hello.'' True), Obj (entry ''43'' ''World.'' False),
                      Obj (entry ''42'' ''Bye.'' False)]) fresh_db
     = (ServerError StoreError, fresh_db\<lparr>output_tbl := [row ''42'' ''alice'' ''Hello.'' 1 9]\<rparr>)"
proof -
  let ?data = "alice_batch []"
  have upd: "?data\<lparr>p_items := ItemList its\<rparr> = alice_batch its" for its
    by (simp add: alice_batch_def)
  have pre: "api_annotations (flaky 1 9) (?data\<lparr>p_items := ItemList [Obj (entry ''42'' ''Hello.'' True)]\<rparr>)
               fresh_db
     = (Saved 1, fresh_db\<lparr>output_tbl := [row ''42'' ''alice'' ''Hello.'' 1 9]\<rparr>)"
    unfolding upd by code_simp
  have tu: "strip_method (py_or (p_username ?data) (JStr [])) = Some ''alice''" by code_simp
  have oid: "entry_oid (entry ''43'' ''World.'' False) \<noteq> []" by code_simp
  have un: "entry_username ''alice'' (entry ''43'' ''World.'' False) \<noteq> None" by code_simp
  have ef: "exec_fails (flaky 1 9) 1" by (simp add: flaky_def)
  from store_failure_keeps_prefix [OF pre tu oid un ef, of "[Obj (entry ''42'' ''Bye.'' False)]"]
       pre ef
  show ?thesis unfolding upd by simp
qed

section \<open>Saving the same entry twice\<close>

lemma upsert_idem: "upsert r (upsert r out) = upsert r out"
  by (induction out) (auto simp: pk_def)

lemma upsert_twice:
  assumes "distinct (map pk out)" "pk r = pk r'" "o_fix_text r = o_fix_text r'"
    "o_confirmed r = o_confirmed r'"
  shows "upsert r (upsert r' out) =
           map (\<lambda>x. if pk x = pk r then x\<lparr>o_timestamp := o_timestamp r\<rparr> else x) (upsert r' out)"
  using assms(1)
proof (induction out)
  case Nil
  from assms(2-4) show ?case by (simp add: pk_def)
next
  case (Cons x xs)
  show ?case
  proof (cases "pk x = pk r'")
    case True
    with Cons.prems assms(2) have "pk r \<notin> pk ` set xs" by simp
    then have "\<forall>y\<in>set xs. pk y \<noteq> pk r" by (metis imageI)
    then have "map (\<lambda>x. if pk x = pk r then x\<lparr>o_timestamp := o_timestamp r\<rparr> else x) xs = xs"
      by (simp add: map_idI)
    with True assms(2-4) show ?thesis by simp
  next
    case False
    with Cons assms(2) show ?thesis by simp
  qed
qed

text \<open>
  C4, as stated: the second save of the same entry leaves the stored state as it was after
  the first. It does not when the clock has moved on: the statement sets the timestamp of
  the row to \<open>NOW()\<close>. Here the entry is saved at time 5 and again at time 6.
\<close>

theorem save_twice_changes_timestamp:
  "api_annotations (calm 5) (alice_batch [Obj (entry ''42'' ''Hello.'' True)]) fresh_db
     = (Saved 1, fresh_db\<lparr>output_tbl := [row ''42'' ''alice'' ''Hello.'' 1 5]\<rparr>)
   \<and> api_annotations (calm 6) (alice_batch [Obj (entry ''42'' ''Hello.'' True)])
        (fresh_db\<lparr>output_tbl := [row ''42'' ''alice'' ''Hello.'' 1 5]\<rparr>)
     = (Saved 1, fresh_db\<lparr>output_tbl := [row ''42'' ''alice'' ''Hello.'' 1 6]\<rparr>)
   \<and> fresh_db\<lparr>output_tbl := [row ''42'' ''alice'' ''Hello.'' 1 6]\<rparr>
       \<noteq> fresh_db\<lparr>output_tbl := [row ''42'' ''alice'' ''Hello.'' 1 5]\<rparr>"
  by code_simp

text \<open>
  C4, amended. Saving the same entry twice, without failures, on a table with at most one row
  per key: both requests report 1, afterwards there is exactly one row with the key of the
  entry, and the state after the second request is the state after the first with the
  timestamp of that row set to the time of the second write; it is the same state when
  both writes happen at the same time.
\<close>

theorem save_twice:
  assumes "primary_key_ok (output_tbl d)"
      and "strip_method (py_or (p_username data) (JStr [])) = Some tu"
      and "entry_oid it \<noteq> []"
      and "entry_username tu it = Some u"
      and "\<not> ensure_fails e1 \<and> \<not> conn_fails e1 \<and> \<not> exec_fails e1 0"
      and "\<not> ensure_fails e2 \<and> \<not> conn_fails e2 \<and> \<not> exec_fails e2 0"
  shows "\<exists>d1 d2.
           api_annotations e1 (data\<lparr>p_items := ItemList [Obj it]\<rparr>) d = (Saved 1, d1)
         \<and> api_annotations e2 (data\<lparr>p_items := ItemList [Obj it]\<rparr>) d1 = (Saved 1, d2)
         \<and> length (filter (\<lambda>x. pk x = (entry_oid it, u)) (output_tbl d2)) = 1
         \<and> full_table1 d2 = full_table1 d1
         \<and> output_tbl d2 =
             map (\<lambda>x. if pk x = (entry_oid it, u) then x\<lparr>o_timestamp := now e2 0\<rparr> else x)
               (output_tbl d1)
         \<and> (now e2 0 = now e1 0 \<longrightarrow> d2 = d1)"
proof -
  obtain t where t: "sql_text (entry_fix_text it) = Some t"
    using sql_text_entry_fix_text by blast
  define r1 where "r1 = \<lparr>o_id_oid = entry_oid it, o_username = u, o_fix_text = t,
                         o_confirmed = entry_confirmed it, o_timestamp = now e1 0\<rparr>"
  define r2 where "r2 = \<lparr>o_id_oid = entry_oid it, o_username = u, o_fix_text = t,
                         o_confirmed = entry_confirmed it, o_timestamp = now e2 0\<rparr>"
  define out1 where "out1 = upsert r1 (output_tbl d)"
  define out2 where "out2 = upsert r2 out1"
  have key: "pk r2 = (entry_oid it, u)" "pk r2 = pk r1"
    by (simp_all add: r1_def r2_def pk_def)
  have s1: "api_annotations e1 (data\<lparr>p_items := ItemList [Obj it]\<rparr>) d = (Saved 1, d\<lparr>output_tbl := out1\<rparr>)"
    using assms(2-5) t by (simp add: api_annotations_def batch_def out1_def r1_def)
  have s2: "api_annotations e2 (data\<lparr>p_items := ItemList [Obj it]\<rparr>) (d\<lparr>output_tbl := out1\<rparr>)
              = (Saved 1, d\<lparr>output_tbl := out2\<rparr>)"
    using assms(2-4,6) t by (simp add: api_annotations_def batch_def out2_def r2_def)
  have ok1: "primary_key_ok out1"
    unfolding out1_def using assms(1) by (rule primary_key_ok_upsert)
  have once: "length (filter (\<lambda>x. pk x = (entry_oid it, u)) out2) = 1"
    using upsert_key_once [OF ok1, of r2] by (simp add: out2_def key)
  have tw: "out2 = map (\<lambda>x. if pk x = (entry_oid it, u) then x\<lparr>o_timestamp := now e2 0\<rparr> else x) out1"
    unfolding out2_def out1_def
    using upsert_twice [of "output_tbl d" r2 r1] assms(1) key
    by (simp add: primary_key_ok_def r1_def r2_def)
  have same: "out2 = out1" if "now e2 0 = now e1 0"
  proof -
    from that have "r2 = r1" by (simp add: r1_def r2_def)
    then show ?thesis by (simp add: out2_def out1_def upsert_idem)
  qed
  show ?thesis
    using s1 s2 once tw same by (intro exI [of _ "d\<lparr>output_tbl := out1\<rparr>"] exI [of _ "d\<lparr>output_tbl := out2\<rparr>"]) simp
qed

theorem save_twice_witness:
  "primary_key_ok (output_tbl fresh_db)
   \<and> entry_username ''alice'' (entry ''42'' ''Hello.'' True) = Some ''alice''
   \<and> (\<exists>d1 d2.
         api_annotations (calm 5) (alice_batch [Obj (entry ''42'' ''Hello.'' True)]) fresh_db = (Saved 1, d1)
       \<and> api_annotations (calm 6) (alice_batch [Obj (entry ''42'' ''Hello.'' True)]) d1 = (Saved 1, d2)
       \<and> length (filter (\<lambda>x. pk x = (''42'', ''alice'')) (output_tbl d2)) = 1
       \<and> output_tbl d2 =
           map (\<lambda>x. if pk x = (''42'', ''alice'') then x\<lparr>o_timestamp := 6\<rparr> else x) (output_tbl d1))"
proof -
  let ?data = "alice_batch []"
  let ?it = "entry ''42'' ''Hello.'' True"
  have upd: "?data\<lparr>p_items := ItemList its\<rparr> = alice_batch its" for its
    by (simp add: alice_batch_def)
  have h: "primary_key_ok (output_tbl fresh_db)" by code_simp
  have tu: "strip_method (py_or (p_username ?data) (JStr [])) = Some ''alice''" by code_simp
  have oid: "entry_oid ?it = ''42''" by code_simp
  then have oid': "entry_oid ?it \<noteq> []" by simp
  have un: "entry_username ''alice'' ?it = Some ''alice''" by code_simp
  have e1: "\<not> ensure_fails (calm 5) \<and> \<not> conn_fails (calm 5) \<and> \<not> exec_fails (calm 5) 0"
    by (simp add: calm_def)
  have e2: "\<not> ensure_fails (calm 6) \<and> \<not> conn_fails (calm 6) \<and> \<not> exec_fails (calm 6) 0"
    by (simp add: calm_def)
  have n: "now (calm 6) 0 = 6" by (simp add: calm_def)
  from save_twice [OF h tu oid' un e1 e2] h un
  show ?thesis unfolding upd oid n by blast
qed

section \<open>The rows a listing returns\<close>

lemma o_user_join_fst: "r \<in> set (o_user_join out u f) \<Longrightarrow> fst r = f"
  by (auto simp: o_user_join_def split: list.splits)

lemma o_user_join_snd:
  "r \<in> set (o_user_join out u f) \<Longrightarrow> snd r = Some x \<Longrightarrow>
     x \<in> set out \<and> Some (o_id_oid x) = f_id_oid f \<and> o_username x = u"
proof -
  assume r: "r \<in> set (o_user_join out u f)" and s: "snd r = Some x"
  let ?ms = "filter (\<lambda>x. Some (o_id_oid x) = f_id_oid f \<and> o_username x = u) out"
  from r s have "x \<in> set ?ms"
    by (cases ?ms) (auto simp: o_user_join_def)
  then show ?thesis by simp
qed

lemma eligible_rows_set:
  "set (eligible_rows d u h) =
     {r \<in> (\<Union>f\<in>set (full_table1 d). set (o_user_join (output_tbl d) u f)).
        where_clause (output_tbl d) h r}"
  by (auto simp: eligible_rows_def)

lemma fetched_subset:
  "set (fetched qf a d) \<subseteq> set (eligible_rows d (req_username a) (hide_confirmed a))"
proof -
  have "set (take n (drop m xs)) \<subseteq> set xs" for n m and xs :: "joined list"
    by (meson set_take_subset set_drop_subset subset_trans)
  then show ?thesis by (simp add: fetched_def select_items_def)
qed

lemma fetched_where:
  "r \<in> set (fetched qf a d) \<Longrightarrow> where_clause (output_tbl d) (hide_confirmed a) r"
  using fetched_subset [of qf a d] by (auto simp: eligible_rows_set)

lemma fetched_item:
  "r \<in> set (fetched qf a d) \<Longrightarrow> fst r \<in> set (full_table1 d)"
  using fetched_subset [of qf a d] by (auto simp: eligible_rows_set dest: o_user_join_fst)

lemma fetched_join:
  "r \<in> set (fetched qf a d) \<Longrightarrow>
     r \<in> set (o_user_join (output_tbl d) (req_username a) (fst r))"
  using fetched_subset [of qf a d] by (auto simp: eligible_rows_set dest: o_user_join_fst)

lemma card_annotators_le: "card (annotators out i) \<le> o_cnt out (Some i)"
proof -
  have "annotators out i = o_username ` set (filter (\<lambda>r. o_id_oid r = i) out)"
    by (auto simp: annotators_def)
  then have "card (annotators out i) \<le> card (set (filter (\<lambda>r. o_id_oid r = i) out))"
    by (simp add: card_image_le)
  also have "\<dots> \<le> length (filter (\<lambda>r. o_id_oid r = i) out)" by (rule card_length)
  finally show ?thesis by (simp add: o_cnt_def)
qed

lemma fetched_quota:
  "r \<in> set (fetched qf a d) \<Longrightarrow> o_cnt (output_tbl d) (f_id_oid (fst r)) < 3"
  by (drule fetched_where) (simp add: where_clause_def)

lemma api_items_length: "length (fst (api_items qf a d)) = length (fetched qf a d)"
  by (simp add: api_items_def)

lemma api_items_nth:
  "k < length (fetched qf a d) \<Longrightarrow> fst (api_items qf a d) ! k = enrich k (fetched qf a d ! k)"
  by (simp add: api_items_def nth_enumerate_eq)

lemma api_items_set:
  assumes "e \<in> set (fst (api_items qf a d))"
  shows "\<exists>i r. r \<in> set (fetched qf a d) \<and> e = enrich i r"
proof -
  from assms obtain k where k: "k < length (fst (api_items qf a d))"
    and e: "fst (api_items qf a d) ! k = e"
    by (auto simp: in_set_conv_nth)
  from k have k': "k < length (fetched qf a d)" by (simp add: api_items_length)
  then have "fetched qf a d ! k \<in> set (fetched qf a d)" by simp
  moreover from k' e have "e = enrich k (fetched qf a d ! k)" by (simp add: api_items_nth)
  ultimately show ?thesis by blast
qed

lemma e_id_enrich: "f_id_oid (fst r) = Some x \<Longrightarrow> e_id (enrich i r) = x"
  by (simp add: enrich_def Let_def)

text \<open>
  C1. An item that three or more distinct users have a row for is in no page of the query,
  for any requesting user, any offset and limit, with or without the filter on confirmed
  items; when every item of \<open>full_table1\<close> has an identifier, no item of the response
  carries its identifier.
\<close>

theorem quota_excludes:
  assumes "3 \<le> card (annotators (output_tbl d) I)"
  shows "Some I \<notin> (\<lambda>r. f_id_oid (fst r)) ` set (fetched qf a d)
       \<and> ((\<forall>f\<in>set (full_table1 d). f_id_oid f \<noteq> None) \<longrightarrow>
            I \<notin> e_id ` set (fst (api_items qf a d)))"
proof
  have cnt: "3 \<le> o_cnt (output_tbl d) (Some I)"
    using assms card_annotators_le [of "output_tbl d" I] by simp
  show no: "Some I \<notin> (\<lambda>r. f_id_oid (fst r)) ` set (fetched qf a d)"
  proof
    assume "Some I \<in> (\<lambda>r. f_id_oid (fst r)) ` set (fetched qf a d)"
    then obtain r where r: "r \<in> set (fetched qf a d)" and i: "f_id_oid (fst r) = Some I" by auto
    from fetched_quota [OF r] i cnt show False by simp
  qed
  show "(\<forall>f\<in>set (full_table1 d). f_id_oid f \<noteq> None) \<longrightarrow> I \<notin> e_id ` set (fst (api_items qf a d))"
  proof (intro impI notI)
    assume nn: "\<forall>f\<in>set (full_table1 d). f_id_oid f \<noteq> None"
      and "I \<in> e_id ` set (fst (api_items qf a d))"
    then obtain i r where r: "r \<in> set (fetched qf a d)" and e: "I = e_id (enrich i r)"
      by (auto dest: api_items_set)
    from fetched_item [OF r] nn obtain x where x: "f_id_oid (fst r) = Some x" by auto
    with e have "I = x" by (simp add: e_id_enrich)
    with x r no show False by force
  qed
qed

theorem quota_excludes_witness:
  "3 \<le> card (annotators (output_tbl quota_db) ''42'')
   \<and> Some ''42'' \<notin> (\<lambda>r. f_id_oid (fst r)) ` set (fetched False (page_args (Some ''dave'')) quota_db)
   \<and> ''42'' \<notin> e_id ` set (fst (api_items False (page_args (Some ''alice'')) quota_db))
   \<and> map e_id (fst (api_items False (page_args (Some ''dave'')) quota_db)) = [''43'']"
proof -
  have h: "3 \<le> card (annotators (output_tbl quota_db) ''42'')" by code_simp
  have nn: "\<forall>f\<in>set (full_table1 quota_db). f_id_oid f \<noteq> None"
    by (simp add: quota_db_def clip_def)
  have l: "map e_id (fst (api_items False (page_args (Some ''dave'')) quota_db)) = [''43'']"
    by code_simp
  from quota_excludes [OF h, of False "page_args (Some ''dave'')"]
       quota_excludes [OF h, of False "page_args (Some ''alice'')"] h nn l
  show ?thesis by blast
qed

text \<open>
  C7. When the query fails, the listing answers with the empty sequence, and no error is
  passed on; failing or not, the listing leaves the database as it was.
\<close>

theorem query_failure_empty:
  "api_items True a d = ([], d) \<and> snd (api_items qf a d) = d"
  by (simp add: api_items_def fetched_def)

section \<open>The requesting user's own row\<close>

text \<open>
  C9. The claim: for the anonymous user every listed item shows the recognized text and is
  not confirmed, whatever \<open>output\<close> holds; the comment at the head of the handler says
  the same (no backfill without a user name). The code joins \<open>output\<close> on the empty user
  name, which is the name a save without user writes: after an anonymous save of item 42, the
  anonymous listing shows the saved text and the confirmed flag.
\<close>

theorem anonymous_listing_backfills:
  "api_annotations (calm 9) \<lparr>p_username = JNull, p_items = ItemList [Obj (entry ''42'' ''Hello.'' True)]\<rparr>
     fresh_db
     = (Saved 1, fresh_db\<lparr>output_tbl := [row ''42'' [] ''Hello.'' 1 9]\<rparr>)
   \<and> req_username (page_args None) = []
   \<and> map shown (fst (api_items False (page_args None)
        (fresh_db\<lparr>output_tbl := [row ''42'' [] ''Hello.'' 1 9]\<rparr>)))
     = [(''42'', ''hello'', ''Hello.'', True), (''43'', ''world'', ''world'', False)]"
  by code_simp

lemma distinct_filter_key:
  "distinct (map f xs) \<Longrightarrow> x \<in> set xs \<Longrightarrow> filter (\<lambda>y. f y = f x) xs = [x]"
proof (induction xs)
  case Nil
  then show ?case by simp
next
  case (Cons a xs)
  show ?case
  proof (cases "a = x")
    case True
    with Cons.prems have "f x \<notin> f ` set xs" by simp
    then have "\<forall>y\<in>set xs. f y \<noteq> f x" by (metis imageI)
    then have "filter (\<lambda>y. f y = f x) xs = []" by (simp add: filter_empty_conv)
    with True show ?thesis by simp
  next
    case False
    with Cons.prems have x: "x \<in> set xs" by simp
    with Cons.prems have "f a \<noteq> f x" by (metis distinct.simps(2) imageI list.simps(9) set_map)
    with Cons x show ?thesis by simp
  qed
qed

lemma o_user_join_own_row:
  assumes "primary_key_ok out" "x \<in> set out" "f_id_oid f = Some (o_id_oid x)"
  shows "o_user_join out (o_username x) f = [(f, Some x)]"
proof -
  have "(\<lambda>y. Some (o_id_oid y) = f_id_oid f \<and> o_username y = o_username x) = (\<lambda>y. pk y = pk x)"
    using assms(3) by (auto simp: pk_def)
  moreover have "filter (\<lambda>y. pk y = pk x) out = [x]"
    using assms(1,2) by (simp add: primary_key_ok_def distinct_filter_key)
  ultimately show ?thesis by (simp add: o_user_join_def)
qed

lemma fetched_own_row:
  assumes "primary_key_ok (output_tbl d)" "x \<in> set (output_tbl d)"
    "o_username x = req_username a" "r \<in> set (fetched qf a d)"
    "f_id_oid (fst r) = Some (o_id_oid x)"
  shows "snd r = Some x"
proof -
  from fetched_join [OF assms(4)] assms(3)
  have "r \<in> set (o_user_join (output_tbl d) (o_username x) (fst r))" by simp
  with o_user_join_own_row [OF assms(1,2,5)] show ?thesis by (cases r) auto
qed

lemma nth_in_page:
  assumes "n < length xs"
  shows "xs ! n \<in> set (take 1 (drop n xs))"
proof -
  from assms have "drop n xs = xs ! n # drop (Suc n) xs" by (simp add: Cons_nth_drop_Suc)
  then show ?thesis by simp
qed

lemma req_username_paging [simp]:
  "req_username (a\<lparr>a_limit := l, a_offset := off\<rparr>) = req_username a"
  "hide_confirmed (a\<lparr>a_limit := l, a_offset := off\<rparr>) = hide_confirmed a"
  by (simp_all add: req_username_def hide_confirmed_def)

text \<open>
  C2, as stated: the listing for a user returns every item the user has a row for, with the
  saved text and flag. In \<open>quota_db\<close> alice has rows for the items 42 and 43. Item 42 has
  rows of three users and is not returned to her; item 43 is returned with the recognized
  text, since her saved text is empty.
\<close>

theorem own_row_not_always_shown:
  "row ''42'' ''alice'' ''Hello.'' 1 5 \<in> set (output_tbl quota_db)
   \<and> row ''43'' ''alice'' [] 1 8 \<in> set (output_tbl quota_db)
   \<and> map shown (fst (api_items False (page_args (Some ''alice'')) quota_db))
       = [(''43'', ''world'', ''world'', True)]"
  by code_simp

text \<open>
  C2, amended. Let the user of the request have the row \<open>x\<close>, in a table with at most one
  row per key. Whenever the listing returns the item of \<open>x\<close>, at position \<open>k\<close> of a
  page, the row joined to it is \<open>x\<close>, the confirmed flag is the one of \<open>x\<close>, and the
  display text is the text of \<open>x\<close> if that is not empty, and the recognized text
  otherwise. The item is on some page exactly when its recognized text is usable, it has
  fewer than 3 rows in \<open>output\<close>, and, with the filter on confirmed items, \<open>x\<close> is not
  confirmed.
\<close>

theorem own_row_backfill:
  assumes "primary_key_ok (output_tbl d)"
      and "x \<in> set (output_tbl d)"
      and "o_username x = req_username a"
  shows "(\<forall>k<length (fetched qf a d).
            f_id_oid (fst (fetched qf a d ! k)) = Some (o_id_oid x) \<longrightarrow>
              snd (fetched qf a d ! k) = Some x
            \<and> e_id (fst (api_items qf a d) ! k) = o_id_oid x
            \<and> e_confirmed (fst (api_items qf a d) ! k) = (o_confirmed x \<noteq> 0)
            \<and> e_fixText (fst (api_items qf a d) ! k)
                = (if o_fix_text x \<noteq> [] then o_fix_text x
                   else e_inputText (fst (api_items qf a d) ! k)))
       \<and> (\<forall>f\<in>set (full_table1 d). f_id_oid f = Some (o_id_oid x) \<longrightarrow>
            ((\<exists>l off. (f, Some x) \<in> set (fetched False (a\<lparr>a_limit := Parsed l, a_offset := Parsed off\<rparr>) d))
             \<longleftrightarrow> text_usable (f_score_audio_input_text f)
                 \<and> o_cnt (output_tbl d) (Some (o_id_oid x)) < 3
                 \<and> (hide_confirmed a \<longrightarrow> o_confirmed x \<noteq> 1)))"
proof (intro conjI allI impI ballI)
  fix k
  assume k: "k < length (fetched qf a d)"
    and i: "f_id_oid (fst (fetched qf a d ! k)) = Some (o_id_oid x)"
  let ?r = "fetched qf a d ! k"
  from k have mem: "?r \<in> set (fetched qf a d)" by simp
  have s: "snd ?r = Some x" by (rule fetched_own_row [OF assms mem i])
  have e: "fst (api_items qf a d) ! k = enrich k ?r" using k by (rule api_items_nth)
  show "snd ?r = Some x" by (rule s)
  show "e_id (fst (api_items qf a d) ! k) = o_id_oid x"
    using i by (simp add: e e_id_enrich)
  show "e_confirmed (fst (api_items qf a d) ! k) = (o_confirmed x \<noteq> 0)"
    using s by (simp add: e enrich_def Let_def)
  show "e_fixText (fst (api_items qf a d) ! k)
          = (if o_fix_text x \<noteq> [] then o_fix_text x else e_inputText (fst (api_items qf a d) ! k))"
    using s by (simp add: e enrich_def Let_def)
next
  fix f
  assume f: "f \<in> set (full_table1 d)" and i: "f_id_oid f = Some (o_id_oid x)"
  let ?u = "req_username a" and ?h = "hide_confirmed a"
  have join: "o_user_join (output_tbl d) ?u f = [(f, Some x)]"
    using o_user_join_own_row [OF assms(1,2) i] assms(3) by simp
  have wc: "where_clause (output_tbl d) ?h (f, Some x) \<longleftrightarrow>
              text_usable (f_score_audio_input_text f)
              \<and> o_cnt (output_tbl d) (Some (o_id_oid x)) < 3
              \<and> (?h \<longrightarrow> o_confirmed x \<noteq> 1)"
    using i by (simp add: where_clause_def)
  show "(\<exists>l off. (f, Some x) \<in> set (fetched False (a\<lparr>a_limit := Parsed l, a_offset := Parsed off\<rparr>) d))
          \<longleftrightarrow> text_usable (f_score_audio_input_text f)
              \<and> o_cnt (output_tbl d) (Some (o_id_oid x)) < 3
              \<and> (?h \<longrightarrow> o_confirmed x \<noteq> 1)"
  proof
    assume "\<exists>l off. (f, Some x) \<in> set (fetched False (a\<lparr>a_limit := Parsed l, a_offset := Parsed off\<rparr>) d)"
    then obtain l off where
      "(f, Some x) \<in> set (fetched False (a\<lparr>a_limit := Parsed l, a_offset := Parsed off\<rparr>) d)"
      by blast
    from fetched_where [OF this] wc
    show "text_usable (f_score_audio_input_text f)
              \<and> o_cnt (output_tbl d) (Some (o_id_oid x)) < 3
              \<and> (?h \<longrightarrow> o_confirmed x \<noteq> 1)" by simp
  next
    assume "text_usable (f_score_audio_input_text f)
              \<and> o_cnt (output_tbl d) (Some (o_id_oid x)) < 3
              \<and> (?h \<longrightarrow> o_confirmed x \<noteq> 1)"
    with wc have "where_clause (output_tbl d) ?h (f, Some x)" by simp
    moreover from join have "(f, Some x) \<in> set (o_user_join (output_tbl d) ?u f)" by simp
    ultimately have "(f, Some x) \<in> set (eligible_rows d ?u ?h)"
      using f unfolding eligible_rows_set by blast
    then obtain n where n: "n < length (eligible_rows d ?u ?h)"
      and at: "eligible_rows d ?u ?h ! n = (f, Some x)"
      by (auto simp: in_set_conv_nth)
    have pg: "paging (Parsed 1) (Parsed (int n)) = (1, n)"
      by (simp add: paging_def)
    have "(f, Some x) \<in> set (fetched False (a\<lparr>a_limit := Parsed 1, a_offset := Parsed (int n)\<rparr>) d)"
      using nth_in_page [OF n] at by (simp add: fetched_def select_items_def pg)
    then show "\<exists>l off. (f, Some x) \<in> set (fetched False (a\<lparr>a_limit := Parsed l, a_offset := Parsed off\<rparr>) d)"
      by blast
  qed
qed

theorem own_row_backfill_witness:
  "primary_key_ok (output_tbl alice_db)
   \<and> row ''42'' ''alice'' ''Hello.'' 1 5 \<in> set (output_tbl alice_db)
   \<and> req_username (page_args (Some ''alice'')) = ''alice''
   \<and> f_id_oid (fst (fetched False (page_args (Some ''alice'')) alice_db ! 0)) = Some ''42''
   \<and> e_inputText (fst (api_items False (page_args (Some ''alice'')) alice_db) ! 0) = ''hello''
   \<and> e_fixText (fst (api_items False (page_args (Some ''alice'')) alice_db) ! 0) = ''Hello.''
   \<and> e_confirmed (fst (api_items False (page_args (Some ''alice'')) alice_db) ! 0)"
proof -
  let ?x = "row ''42'' ''alice'' ''Hello.'' 1 5"
  let ?a = "page_args (Some ''alice'')"
  have h1: "primary_key_ok (output_tbl alice_db)" by code_simp
  have h2: "?x \<in> set (output_tbl alice_db)" by code_simp
  have u: "req_username ?a = ''alice''" by code_simp
  have h3: "o_username ?x = req_username ?a" by (simp add: u row_def)
  have len: "0 < length (fetched False ?a alice_db)" by code_simp
  have i: "f_id_oid (fst (fetched False ?a alice_db ! 0)) = Some (o_id_oid ?x)" by code_simp
  have raw: "e_inputText (fst (api_items False ?a alice_db) ! 0) = ''hello''" by code_simp
  from own_row_backfill [OF h1 h2 h3, of False]
  have "\<forall>k<length (fetched False ?a alice_db).
            f_id_oid (fst (fetched False ?a alice_db ! k)) = Some (o_id_oid ?x) \<longrightarrow>
              snd (fetched False ?a alice_db ! k) = Some ?x
            \<and> e_id (fst (api_items False ?a alice_db) ! k) = o_id_oid ?x
            \<and> e_confirmed (fst (api_items False ?a alice_db) ! k) = (o_confirmed ?x \<noteq> 0)
            \<and> e_fixText (fst (api_items False ?a alice_db) ! k)
                = (if o_fix_text ?x \<noteq> [] then o_fix_text ?x
                   else e_inputText (fst (api_items False ?a alice_db) ! k))"
    by (rule conjunct1)
  with len i have
    "e_confirmed (fst (api_items False ?a alice_db) ! 0) = (o_confirmed ?x \<noteq> 0)
     \<and> e_fixText (fst (api_items False ?a alice_db) ! 0)
         = (if o_fix_text ?x \<noteq> [] then o_fix_text ?x
            else e_inputText (fst (api_items False ?a alice_db) ! 0))"
    by blast
  then have "e_confirmed (fst (api_items False ?a alice_db) ! 0)
     \<and> e_fixText (fst (api_items False ?a alice_db) ! 0) = ''Hello.''"
    by (simp add: row_def)
  with h1 h2 u i raw show ?thesis by (simp add: row_def)
qed

section \<open>Order and pages\<close>













section \<open>Entries without a user\<close>

lemma length_filter_pk: "length (filter (\<lambda>r. P (pk r)) xs) = length (filter P (map pk xs))"
  by (induction xs) auto

lemma upsert_count_mono:
  "length (filter (\<lambda>r. P (pk r)) out) \<le> length (filter (\<lambda>r. P (pk r)) (upsert r out))"
  by (simp add: length_filter_pk map_pk_upsert)

lemma save_loop_count_mono:
  "length (filter (\<lambda>r. P (pk r)) out)
     \<le> length (filter (\<lambda>r. P (pk r)) (snd (save_loop env tu its k out)))"
proof (induction its arbitrary: k out)
  case Nil
  then show ?case by simp
next
  case (Cons e its)
  show ?case
  proof (cases e)
    case NotObj
    then show ?thesis by simp
  next
    case (Obj it)
    show ?thesis
    proof (cases "entry_oid it = [] \<or> entry_username tu it = None
                  \<or> sql_text (entry_fix_text it) = None \<or> exec_fails env k")
      case True
      then show ?thesis
        using Cons.IH [where k = k and out = out] Obj by (auto split: option.splits)
    next
      case False
      then obtain u t where u: "entry_username tu it = Some u"
        and t: "sql_text (entry_fix_text it) = Some t" by auto
      let ?r = "\<lparr>o_id_oid = entry_oid it, o_username = u, o_fix_text = t,
                  o_confirmed = entry_confirmed it, o_timestamp = now env k\<rparr>"
      have "length (filter (\<lambda>r. P (pk r)) out) \<le> length (filter (\<lambda>r. P (pk r)) (upsert ?r out))"
        by (rule upsert_count_mono)
      also have "\<dots> \<le> length (filter (\<lambda>r. P (pk r))
                            (snd (save_loop env tu its (Suc k) (upsert ?r out))))"
        by (rule Cons.IH)
      finally show ?thesis using False u t Obj by simp
    qed
  qed
qed

lemma length_filter_split:
  "length (filter P xs) =
     length (filter (\<lambda>x. P x \<and> Q x) xs) + length (filter (\<lambda>x. P x \<and> \<not> Q x) xs)"
  by (induction xs) auto

lemma blank_top_username:
  assumes "j = JNull \<or> (\<exists>s. j = JStr s \<and> strip s = [])"
  shows "strip_method (py_or j (JStr [])) = Some []"
  using assms by (auto simp: py_or_def strip_Nil)

lemma blank_entry_username:
  assumes "get it ''username'' = JNull \<or> (\<exists>s. get it ''username'' = JStr s \<and> strip s = [])"
  shows "entry_username [] it = Some []"
  using assms by (auto simp: entry_username_def py_or_def strip_Nil)

text \<open>
  C10. Let the user of the envelope and the user of an entry both be missing or blank after
  trimming, the identifier of the entry valid, the entries \<open>pre\<close> before it saved with
  \<open>k\<close> statements, and the statement of the entry not failing. The entry is not skipped:
  it is counted and its row, with the empty string as user, is upserted. Whatever follows in
  the batch, the table afterwards has a row of the empty user for the item, the count of the
  item is at least one more than the number of its rows of named users before the request,
  and with two such rows no listing returns the item any more.
\<close>

theorem blank_user_row_counts:
  assumes top: "p_username data = JNull \<or> (\<exists>s. p_username data = JStr s \<and> strip s = [])"
      and ent: "get it ''username'' = JNull \<or> (\<exists>s. get it ''username'' = JStr s \<and> strip s = [])"
      and oid: "entry_oid it \<noteq> []"
      and pre: "api_annotations env (data\<lparr>p_items := ItemList pre\<rparr>) d = (Saved k, d1)"
      and ok: "\<not> exec_fails env k"
  shows "(\<exists>t. api_annotations env (data\<lparr>p_items := ItemList (pre @ [Obj it])\<rparr>) d =
               (Saved (Suc k),
                d1\<lparr>output_tbl := upsert \<lparr>o_id_oid = entry_oid it, o_username = [], o_fix_text = t,
                                          o_confirmed = entry_confirmed it, o_timestamp = now env k\<rparr>
                                    (output_tbl d1)\<rparr>))
       \<and> (\<forall>post d'. snd (api_annotations env (data\<lparr>p_items := ItemList (pre @ Obj it # post)\<rparr>) d) = d' \<longrightarrow>
            [] \<in> annotators (output_tbl d') (entry_oid it)
          \<and> Suc (length (filter (\<lambda>r. o_id_oid r = entry_oid it \<and> o_username r \<noteq> []) (output_tbl d)))
              \<le> o_cnt (output_tbl d') (Some (entry_oid it))
          \<and> (2 \<le> length (filter (\<lambda>r. o_id_oid r = entry_oid it \<and> o_username r \<noteq> []) (output_tbl d)) \<longrightarrow>
               Some (entry_oid it) \<notin> (\<lambda>r. f_id_oid (fst r)) ` set (fetched qf a d')))"
proof -
  have tu: "strip_method (py_or (p_username data) (JStr [])) = Some []"
    using top by (rule blank_top_username)
  have un: "entry_username [] it = Some []" using ent by (rule blank_entry_username)
  obtain t where t: "sql_text (entry_fix_text it) = Some t"
    using sql_text_entry_fix_text by blast
  let ?r = "\<lparr>o_id_oid = entry_oid it, o_username = [], o_fix_text = t,
              o_confirmed = entry_confirmed it, o_timestamp = now env k\<rparr>"
  from api_annotations_Saved [OF pre] tu
  have env: "\<not> ensure_fails env" "\<not> conn_fails env"
    and lp: "save_loop env [] pre 0 (output_tbl d) = (Inr k, output_tbl d1)"
    and d1: "d1 = d\<lparr>output_tbl := output_tbl d1\<rparr>"
    by auto
  have step: "save_loop env [] (pre @ Obj it # post) 0 (output_tbl d)
                = save_loop env [] post (Suc k) (upsert ?r (output_tbl d1))" for post
    using oid un t ok by (simp add: save_loop_append lp)
  have one: "api_annotations env (data\<lparr>p_items := ItemList (pre @ [Obj it])\<rparr>) d =
               (Saved (Suc k), d1\<lparr>output_tbl := upsert ?r (output_tbl d1)\<rparr>)"
  proof -
    have "api_annotations env (data\<lparr>p_items := ItemList (pre @ [Obj it])\<rparr>) d =
               (Saved (Suc k), d\<lparr>output_tbl := upsert ?r (output_tbl d1)\<rparr>)"
      using env tu by (simp add: api_annotations_loop step)
    moreover have "d\<lparr>output_tbl := upsert ?r (output_tbl d1)\<rparr>
                     = d1\<lparr>output_tbl := upsert ?r (output_tbl d1)\<rparr>"
      by (subst (2) d1) simp
    ultimately show ?thesis by simp
  qed
  have rest: "[] \<in> annotators (output_tbl d') (entry_oid it)
          \<and> Suc (length (filter (\<lambda>r. o_id_oid r = entry_oid it \<and> o_username r \<noteq> []) (output_tbl d)))
              \<le> o_cnt (output_tbl d') (Some (entry_oid it))
          \<and> (2 \<le> length (filter (\<lambda>r. o_id_oid r = entry_oid it \<and> o_username r \<noteq> []) (output_tbl d)) \<longrightarrow>
               Some (entry_oid it) \<notin> (\<lambda>r. f_id_oid (fst r)) ` set (fetched qf a d'))"
    if d': "snd (api_annotations env (data\<lparr>p_items := ItemList (pre @ Obj it # post)\<rparr>) d) = d'"
    for post d'
  proof -
    let ?i = "entry_oid it"
    let ?fin = "snd (save_loop env [] post (Suc k) (upsert ?r (output_tbl d1)))"
    let ?named = "\<lambda>key. fst key = ?i \<and> snd key \<noteq> []"
    let ?blank = "\<lambda>key. key = (?i, [])"
    have out': "output_tbl d' = ?fin"
      using d' env tu
      by (auto simp: api_annotations_loop step split: prod.splits sum.splits)
    have "length (filter (\<lambda>r. ?blank (pk r)) (upsert ?r (output_tbl d1)))
            \<le> length (filter (\<lambda>r. ?blank (pk r)) ?fin)"
      by (rule save_loop_count_mono)
    moreover have "pk ?r \<in> set (map pk (upsert ?r (output_tbl d1)))"
      by (simp add: map_pk_upsert)
    then have "filter ?blank (map pk (upsert ?r (output_tbl d1))) \<noteq> []"
      by (auto simp: filter_empty_conv pk_def)
    then have "0 < length (filter ?blank (map pk (upsert ?r (output_tbl d1))))"
      by (rule length_greater_0_conv [THEN iffD2])
    then have "0 < length (filter (\<lambda>r. ?blank (pk r)) (upsert ?r (output_tbl d1)))"
      using length_filter_pk [of ?blank "upsert ?r (output_tbl d1)"] by simp
    ultimately have blank: "1 \<le> length (filter (\<lambda>r. ?blank (pk r)) ?fin)" by linarith
    then have "filter (\<lambda>r. ?blank (pk r)) ?fin \<noteq> []" by auto
    then obtain x where x: "x \<in> set ?fin" "pk x = (?i, [])"
      by (auto simp: filter_empty_conv)
    then have ann: "[] \<in> annotators ?fin ?i"
      by (force simp: annotators_def pk_def)
    have "length (filter (\<lambda>r. ?named (pk r)) (output_tbl d))
            \<le> length (filter (\<lambda>r. ?named (pk r)) (snd (save_loop env [] pre 0 (output_tbl d))))"
      by (rule save_loop_count_mono)
    also have "\<dots> = length (filter (\<lambda>r. ?named (pk r)) (output_tbl d1))" by (simp add: lp)
    also have "\<dots> \<le> length (filter (\<lambda>r. ?named (pk r)) (upsert ?r (output_tbl d1)))"
      by (rule upsert_count_mono)
    also have "\<dots> \<le> length (filter (\<lambda>r. ?named (pk r)) ?fin)"
      by (rule save_loop_count_mono)
    finally have named: "length (filter (\<lambda>r. ?named (pk r)) (output_tbl d))
                           \<le> length (filter (\<lambda>r. ?named (pk r)) ?fin)" .
    have named': "length (filter (\<lambda>r. o_id_oid r = ?i \<and> o_username r \<noteq> []) (output_tbl d))
                    \<le> length (filter (\<lambda>r. o_id_oid r = ?i \<and> o_username r \<noteq> []) ?fin)"
      using named by (simp add: pk_def)
    have blank': "1 \<le> length (filter (\<lambda>r. o_id_oid r = ?i \<and> o_username r = []) ?fin)"
      using blank by (simp add: pk_def)
    have "o_cnt ?fin (Some ?i) =
            length (filter (\<lambda>r. o_id_oid r = ?i \<and> o_username r \<noteq> []) ?fin)
            + length (filter (\<lambda>r. o_id_oid r = ?i \<and> \<not> o_username r \<noteq> []) ?fin)"
      unfolding o_cnt_def option.case by (rule length_filter_split)
    then have parts: "o_cnt ?fin (Some ?i) =
            length (filter (\<lambda>r. o_id_oid r = ?i \<and> o_username r \<noteq> []) ?fin)
            + length (filter (\<lambda>r. o_id_oid r = ?i \<and> o_username r = []) ?fin)"
      by simp
    have cnt: "Suc (length (filter (\<lambda>r. o_id_oid r = ?i \<and> o_username r \<noteq> []) (output_tbl d)))
              \<le> o_cnt ?fin (Some ?i)"
      using named' blank' parts by linarith
    have lst: "Some ?i \<notin> (\<lambda>r. f_id_oid (fst r)) ` set (fetched qf a d')"
      if two: "2 \<le> length (filter (\<lambda>r. o_id_oid r = ?i \<and> o_username r \<noteq> []) (output_tbl d))"
    proof
      assume "Some ?i \<in> (\<lambda>r. f_id_oid (fst r)) ` set (fetched qf a d')"
      then obtain r where r: "r \<in> set (fetched qf a d')" and i: "f_id_oid (fst r) = Some ?i"
        by auto
      from fetched_quota [OF r] i have "o_cnt (output_tbl d') (Some ?i) < 3" by simp
      with cnt two out' show False by simp
    qed
    from ann cnt lst show ?thesis unfolding out' by blast
  qed
  from one rest show ?thesis by blast
qed

theorem blank_user_row_counts_witness:
  "strip ''  '' = []
   \<and> get (entry ''42'' ''anon'' False) ''username'' = JNull
   \<and> entry_oid (entry ''42'' ''anon'' False) = ''42''
   \<and> api_annotations (calm 9)
        \<lparr>p_username = JStr ''  '', p_items = ItemList [Obj (entry ''42'' ''anon'' False)]\<rparr> two_db
       = (Saved 1, two_db\<lparr>output_tbl := output_tbl two_db @ [row ''42'' [] ''anon'' 0 9]\<rparr>)
   \<and> Some ''42'' \<notin> (\<lambda>r. f_id_oid (fst r)) `
        set (fetched False (page_args (Some ''dave''))
               (two_db\<lparr>output_tbl := output_tbl two_db @ [row ''42'' [] ''anon'' 0 9]\<rparr>))"
proof -
  let ?data = "\<lparr>p_username = JStr ''  '', p_items = ItemList []\<rparr>"
  let ?it = "entry ''42'' ''anon'' False"
  let ?d' = "two_db\<lparr>output_tbl := output_tbl two_db @ [row ''42'' [] ''anon'' 0 9]\<rparr>"
  have st: "strip ''  '' = []" by code_simp
  then have top: "p_username ?data = JNull \<or> (\<exists>s. p_username ?data = JStr s \<and> strip s = [])"
    by simp
  have g: "get ?it ''username'' = JNull" by code_simp
  then have ent: "get ?it ''username'' = JNull \<or> (\<exists>s. get ?it ''username'' = JStr s \<and> strip s = [])"
    by simp
  have oid: "entry_oid ?it = ''42''" by code_simp
  then have oid': "entry_oid ?it \<noteq> []" by simp
  have pre: "api_annotations (calm 9) (?data\<lparr>p_items := ItemList []\<rparr>) two_db = (Saved 0, two_db)"
    by code_simp
  have ok: "\<not> exec_fails (calm 9) 0" by (simp add: calm_def)
  have run: "api_annotations (calm 9)
        \<lparr>p_username = JStr ''  '', p_items = ItemList [Obj ?it]\<rparr> two_db = (Saved 1, ?d')"
    by code_simp
  have two: "2 \<le> length (filter (\<lambda>r. o_id_oid r = ''42'' \<and> o_username r \<noteq> []) (output_tbl two_db))"
    by code_simp
  from blank_user_row_counts [OF top ent oid' pre ok, of False "page_args (Some ''dave'')"]
  have "\<forall>post d'. snd (api_annotations (calm 9) (?data\<lparr>p_items := ItemList ([] @ Obj ?it # post)\<rparr>) two_db) = d' \<longrightarrow>
          (2 \<le> length (filter (\<lambda>r. o_id_oid r = entry_oid ?it \<and> o_username r \<noteq> []) (output_tbl two_db)) \<longrightarrow>
               Some (entry_oid ?it) \<notin> (\<lambda>r. f_id_oid (fst r)) ` set (fetched False (page_args (Some ''dave'')) d'))"
    by blast
  then have "snd (api_annotations (calm 9) (?data\<lparr>p_items := ItemList ([] @ Obj ?it # [])\<rparr>) two_db) = ?d' \<longrightarrow>
          (2 \<le> length (filter (\<lambda>r. o_id_oid r = entry_oid ?it \<and> o_username r \<noteq> []) (output_tbl two_db)) \<longrightarrow>
               Some (entry_oid ?it) \<notin> (\<lambda>r. f_id_oid (fst r)) ` set (fetched False (page_args (Some ''dave'')) ?d'))"
    by blast
  with run two have "Some ''42'' \<notin> (\<lambda>r. f_id_oid (fst r)) ` set (fetched False (page_args (Some ''dave'')) ?d')"
    unfolding oid by simp
  with st g oid run show ?thesis by simp
qed

end
